theory Spec2Isabelle
  imports Main "HOL-Library.Word"
begin

section \<open>Chunk-level deduplication of uploads (backend/server.js)\<close>

text \<open>
  The upload handler of \<^verbatim>\<open>backend/server.js\<close> reads a file as a stream of byte
  fragments, cuts it into chunks of \<^verbatim>\<open>CHUNK_SIZE\<close> bytes, stores every chunk whose SHA-256
  digest is not yet in the DynamoDB table \<^verbatim>\<open>chunks\<close> in S3, and writes a manifest into the
  table \<^verbatim>\<open>files\<close>. The model below follows the handler line by line. What lies outside
  the file is made explicit:
  \<^item> the SHA-256 function of Node's \<^verbatim>\<open>crypto\<close> module is a parameter \<open>sha256\<close>; a hash
    object is the sequence of bytes fed to it so far;
  \<^item> S3, DynamoDB, the clock and the random source form a \<open>world\<close> that every call takes
    and returns; a script inside the world says, for each call sent to AWS, which
    records concurrent uploads insert just before it is served and whether it fails;
  \<^item> the read stream is the list of its \<^verbatim>\<open>data\<close> fragments followed by \<^verbatim>\<open>end\<close> or
    \<^verbatim>\<open>error\<close>. The handler pauses the stream while it works on a fragment, so events are
    handled one after the other;
  \<^item> a thrown exception is the \<open>Inl\<close> branch of a sum.
  JavaScript numbers are exact below \<open>2 ^ 53\<close>; byte counts are modelled as \<open>nat\<close>. The
  clock is read for the time stamps and never advanced, and a call that fails writes
  nothing. The removal of the temporary file (lines 157 and 170) is left out.
\<close>

subsection \<open>Configuration and data\<close>

type_synonym buffer = "8 word list"

type_synonym digest = string

definition BUCKET_NAME :: string where
  "BUCKET_NAME = ''deduplication-bucket-cloudproject''"

definition CHUNK_SIZE :: nat where
  "CHUNK_SIZE = 5 * 1024 * 1024"

definition CHUNKS_TABLE :: string where
  "CHUNKS_TABLE = ''chunks''"

definition FILES_TABLE :: string where
  "FILES_TABLE = ''files''"

datatype error =
    ConditionalCheckFailedException
  | ServiceError string
  | ReadError string

fun message :: "error \<Rightarrow> string" where
  "message ConditionalCheckFailedException = ''The conditional request failed''"
| "message (ServiceError m) = m"
| "message (ReadError m) = m"

text \<open>An item of the table \<^verbatim>\<open>chunks\<close> (lines 47-52) and one of the table \<^verbatim>\<open>files\<close>
  (lines 65-72).\<close>

record chunk_item =
  chunk_hash :: digest
  chunk_size :: nat
  chunk_s3Key :: string
  chunk_createdAt :: string

record file_item =
  item_fileId :: string
  item_fileName :: string
  item_size :: nat
  item_uploadDate :: string
  item_contentHash :: digest
  item_chunkHashes :: "digest list"

subsection \<open>The hash object of Node's crypto module\<close>

text \<open>\<^verbatim>\<open>createHash('sha256')\<close> starts an empty hash object, \<^verbatim>\<open>update\<close> feeds it bytes and
  \<^verbatim>\<open>digest('hex')\<close> returns the SHA-256 of all the bytes fed, in feeding order.\<close>

type_synonym hasher = buffer

definition createHash :: hasher where
  "createHash = []"

definition update :: "hasher \<Rightarrow> buffer \<Rightarrow> hasher" where
  "update h data = h @ data"

definition digest_hex :: "(buffer \<Rightarrow> digest) \<Rightarrow> hasher \<Rightarrow> digest" where
  "digest_hex sha256 h = sha256 h"

text \<open>Line 25.\<close>

definition sha256Hex :: "(buffer \<Rightarrow> digest) \<Rightarrow> buffer \<Rightarrow> digest" where
  "sha256Hex sha256 buf = digest_hex sha256 (update createHash buf)"

subsection \<open>The world: S3, DynamoDB, clock, random source\<close>

datatype command =
    GetItemCommand string digest
  | PutObjectCommand string string buffer
  | PutChunkItemCommand string chunk_item
  | PutFileItemCommand string file_item

text \<open>One step of the script: the chunk records that concurrent uploads insert just before
  the next call is served, and the failure of that call, if any.\<close>

record env_step =
  arrivals :: "chunk_item list"
  fault :: "error option"

text \<open>The log lists every command this process has sent, with the error it got back.\<close>

record world =
  chunks_table :: "digest \<rightharpoonup> chunk_item"
  files_table :: "string \<rightharpoonup> file_item"
  bucket :: "string \<rightharpoonup> buffer"
  clock :: string
  uuid_source :: "nat \<Rightarrow> string"
  uuid_drawn :: nat
  script :: "env_step list"
  log :: "(command \<times> error option) list"

text \<open>A concurrent upload inserts with the same condition \<^verbatim>\<open>attribute_not_exists(hash)\<close>.\<close>

definition concurrent_insert ::
  "(digest \<rightharpoonup> chunk_item) \<Rightarrow> chunk_item \<Rightarrow> (digest \<rightharpoonup> chunk_item)" where
  "concurrent_insert t it =
     (case t (chunk_hash it) of None \<Rightarrow> t(chunk_hash it \<mapsto> it) | Some _ \<Rightarrow> t)"

definition env_turn :: "world \<Rightarrow> error option \<times> world" where
  "env_turn w =
     (case script w of
        [] \<Rightarrow> (None, w)
      | e # es \<Rightarrow>
          (fault e,
           w\<lparr>chunks_table := foldl concurrent_insert (chunks_table w) (arrivals e),
             script := es\<rparr>))"

definition logged :: "command \<Rightarrow> error option \<Rightarrow> world \<Rightarrow> world" where
  "logged cmd r w = w\<lparr>log := log w @ [(cmd, r)]\<rparr>"

definition send_GetItem :: "digest \<Rightarrow> world \<Rightarrow> (error + chunk_item option) \<times> world" where
  "send_GetItem h w =
     (case env_turn w of
        (Some e, w1) \<Rightarrow> (Inl e, logged (GetItemCommand CHUNKS_TABLE h) (Some e) w1)
      | (None, w1) \<Rightarrow>
          (Inr (chunks_table w1 h), logged (GetItemCommand CHUNKS_TABLE h) None w1))"

definition send_PutObject :: "string \<Rightarrow> buffer \<Rightarrow> world \<Rightarrow> (error + unit) \<times> world" where
  "send_PutObject k body w =
     (case env_turn w of
        (Some e, w1) \<Rightarrow> (Inl e, logged (PutObjectCommand BUCKET_NAME k body) (Some e) w1)
      | (None, w1) \<Rightarrow>
          (Inr (), logged (PutObjectCommand BUCKET_NAME k body) None
                     (w1\<lparr>bucket := (bucket w1)(k \<mapsto> body)\<rparr>)))"

text \<open>\<^verbatim>\<open>PutItem\<close> with \<^verbatim>\<open>ConditionExpression: 'attribute_not_exists(hash)'\<close>: the item is
  written only when the table has no item with this hash; otherwise the call throws
  \<^verbatim>\<open>ConditionalCheckFailedException\<close>.\<close>

definition send_PutChunkItem :: "chunk_item \<Rightarrow> world \<Rightarrow> (error + unit) \<times> world" where
  "send_PutChunkItem it w =
     (case env_turn w of
        (Some e, w1) \<Rightarrow> (Inl e, logged (PutChunkItemCommand CHUNKS_TABLE it) (Some e) w1)
      | (None, w1) \<Rightarrow>
          (case chunks_table w1 (chunk_hash it) of
             Some _ \<Rightarrow>
               (Inl ConditionalCheckFailedException,
                logged (PutChunkItemCommand CHUNKS_TABLE it)
                  (Some ConditionalCheckFailedException) w1)
           | None \<Rightarrow>
               (Inr (), logged (PutChunkItemCommand CHUNKS_TABLE it) None
                          (w1\<lparr>chunks_table := (chunks_table w1)(chunk_hash it \<mapsto> it)\<rparr>))))"

definition send_PutFileItem :: "file_item \<Rightarrow> world \<Rightarrow> (error + unit) \<times> world" where
  "send_PutFileItem it w =
     (case env_turn w of
        (Some e, w1) \<Rightarrow> (Inl e, logged (PutFileItemCommand FILES_TABLE it) (Some e) w1)
      | (None, w1) \<Rightarrow>
          (Inr (), logged (PutFileItemCommand FILES_TABLE it) None
                     (w1\<lparr>files_table := (files_table w1)(item_fileId it \<mapsto> it)\<rparr>)))"

text \<open>\<^verbatim>\<open>crypto.randomUUID()\<close> (line 89).\<close>

definition randomUUID :: "world \<Rightarrow> string \<times> world" where
  "randomUUID w = (uuid_source w (uuid_drawn w), w\<lparr>uuid_drawn := Suc (uuid_drawn w)\<rparr>)"

subsection \<open>ensureChunkStored and putFileManifest\<close>

text \<open>Lines 27-60. The result is the field \<^verbatim>\<open>existed\<close>. The \<^verbatim>\<open>catch (_)\<close> of lines 55-57
  has an empty body and no filter: whatever the conditional put throws is dropped.\<close>

definition ensureChunkStored :: "digest \<Rightarrow> buffer \<Rightarrow> world \<Rightarrow> (error + bool) \<times> world" where
  "ensureChunkStored chunkHash chunkBuffer w =
     (case send_GetItem chunkHash w of
        (Inl e, w1) \<Rightarrow> (Inl e, w1)
      | (Inr (Some existing), w1) \<Rightarrow> (Inr True, w1)
      | (Inr None, w1) \<Rightarrow>
          (let s3Key = ''chunks/'' @ chunkHash in
           case send_PutObject s3Key chunkBuffer w1 of
             (Inl e, w2) \<Rightarrow> (Inl e, w2)
           | (Inr _, w2) \<Rightarrow>
               (case send_PutChunkItem
                       \<lparr>chunk_hash = chunkHash, chunk_size = length chunkBuffer,
                        chunk_s3Key = s3Key, chunk_createdAt = clock w2\<rparr> w2 of
                  (_, w3) \<Rightarrow> (Inr False, w3))))"

text \<open>Lines 62-74.\<close>

definition putFileManifest ::
  "string \<Rightarrow> string \<Rightarrow> nat \<Rightarrow> digest list \<Rightarrow> digest \<Rightarrow> world \<Rightarrow> (error + unit) \<times> world" where
  "putFileManifest fileId fileName size_arg chunkHashes_arg contentHash w =
     send_PutFileItem
       \<lparr>item_fileId = fileId, item_fileName = fileName, item_size = size_arg,
        item_uploadDate = clock w, item_contentHash = contentHash,
        item_chunkHashes = chunkHashes_arg\<rparr> w"

subsection \<open>The upload handler\<close>

text \<open>The local variables of the handler (lines 92-100). The field \<open>emitted\<close> is a history
  variable, not a variable of the source: it lists the values the source binds to
  \<^verbatim>\<open>chunk\<close> (lines 112 and 130), in order.\<close>

record upload_state =
  uploadedNewChunks :: nat
  reusedChunks :: nat
  buffered :: buffer
  chunkHashes :: "digest list"
  contentHasher :: hasher
  totalBytes :: nat
  emitted :: "buffer list"

definition init_state :: upload_state where
  "init_state =
     \<lparr>uploadedNewChunks = 0, reusedChunks = 0, buffered = [], chunkHashes = [],
      contentHasher = createHash, totalBytes = 0, emitted = []\<rparr>"

text \<open>Lines 115-118, and again lines 131-134: hash the chunk, store it unless known, count
  it, push its hash.\<close>

definition process_chunk ::
  "(buffer \<Rightarrow> digest) \<Rightarrow> buffer \<Rightarrow> upload_state \<Rightarrow> world \<Rightarrow> (error + upload_state) \<times> world" where
  "process_chunk sha256 chunk s w =
     (let chunkHash = sha256Hex sha256 chunk in
      case ensureChunkStored chunkHash chunk w of
        (Inl e, w') \<Rightarrow> (Inl e, w')
      | (Inr existed, w') \<Rightarrow>
          (Inr ((if existed then s\<lparr>reusedChunks := reusedChunks s + 1\<rparr>
                 else s\<lparr>uploadedNewChunks := uploadedNewChunks s + 1\<rparr>)
                \<lparr>chunkHashes := chunkHashes s @ [chunkHash],
                 emitted := emitted s @ [chunk]\<rparr>), w'))"

text \<open>The loop of lines 111-119.\<close>

function chunk_loop ::
  "(buffer \<Rightarrow> digest) \<Rightarrow> upload_state \<Rightarrow> world \<Rightarrow> (error + upload_state) \<times> world" where
  "chunk_loop sha256 s w =
     (if length (buffered s) \<ge> CHUNK_SIZE then
        (case process_chunk sha256 (take CHUNK_SIZE (buffered s))
                (s\<lparr>buffered := drop CHUNK_SIZE (buffered s)\<rparr>) w of
           (Inl e, w') \<Rightarrow> (Inl e, w')
         | (Inr s', w') \<Rightarrow> chunk_loop sha256 s' w')
      else (Inr s, w))"
  by pat_completeness auto
termination
proof (relation "measure (\<lambda>(sha256, s, w). length (buffered s))", goal_cases)
  case 1
  show ?case by simp
next
  case (2 sha256 s w x1 w' s')
  from 2(2,3) have "process_chunk sha256 (take CHUNK_SIZE (buffered s))
      (s\<lparr>buffered := drop CHUNK_SIZE (buffered s)\<rparr>) w = (Inr s', w')"
    by simp
  then have "buffered s' = drop CHUNK_SIZE (buffered s)"
    by (auto simp: process_chunk_def Let_def split: prod.splits sum.splits if_splits)
  moreover have "0 < CHUNK_SIZE"
    by (simp add: CHUNK_SIZE_def)
  ultimately show ?case using 2(1) by simp
qed

declare chunk_loop.simps [simp del]

text \<open>The \<^verbatim>\<open>data\<close> listener (lines 103-124) and the \<^verbatim>\<open>end\<close> listener (lines 126-140).\<close>

definition on_data ::
  "(buffer \<Rightarrow> digest) \<Rightarrow> buffer \<Rightarrow> upload_state \<Rightarrow> world \<Rightarrow> (error + upload_state) \<times> world" where
  "on_data sha256 data s w =
     chunk_loop sha256
       (s\<lparr>contentHasher := update (contentHasher s) data,
          totalBytes := totalBytes s + length data,
          buffered := buffered s @ data\<rparr>) w"

definition on_end ::
  "(buffer \<Rightarrow> digest) \<Rightarrow> upload_state \<Rightarrow> world \<Rightarrow> (error + upload_state) \<times> world" where
  "on_end sha256 s w =
     (if length (buffered s) > 0 then process_chunk sha256 (buffered s) s w
      else (Inr s, w))"

text \<open>The promise of lines 102-143 over a stream that emits the fragments and then
  \<^verbatim>\<open>end\<close> or \<^verbatim>\<open>error\<close>. The first rejection settles the promise.\<close>

datatype stream_end = End | Error string

fun read_stream ::
  "(buffer \<Rightarrow> digest) \<Rightarrow> buffer list \<Rightarrow> stream_end \<Rightarrow> upload_state \<Rightarrow> world
     \<Rightarrow> (error + upload_state) \<times> world" where
  "read_stream sha256 [] End s w = on_end sha256 s w"
| "read_stream sha256 [] (Error m) s w = (Inl (ReadError m), w)"
| "read_stream sha256 (data # rest) fin s w =
     (case on_data sha256 data s w of
        (Inl e, w') \<Rightarrow> (Inl e, w')
      | (Inr s', w') \<Rightarrow> read_stream sha256 rest fin s' w')"

text \<open>\<^verbatim>\<open>req.file\<close>: the original name and what reading \<^verbatim>\<open>file.path\<close> yields.\<close>

record upload_file =
  originalname :: string
  fragments :: "buffer list"
  ending :: stream_end

record upload_json =
  res_message :: string
  res_fileId :: string
  res_fileName :: string
  res_size :: nat
  res_chunks :: nat
  res_uploadedNewChunks :: nat
  res_reusedChunks :: nat

definition ok_message :: string where
  "ok_message = ''File processed with chunk-level deduplication.''"

datatype response =
    Status200 upload_json
  | Status400 string
  | Status500 string

text \<open>Lines 85-173.\<close>

definition upload_handler ::
  "(buffer \<Rightarrow> digest) \<Rightarrow> upload_file option \<Rightarrow> world \<Rightarrow> response \<times> world" where
  "upload_handler sha256 req_file w =
     (case req_file of
        None \<Rightarrow> (Status400 ''No file uploaded.'', w)
      | Some f \<Rightarrow>
          (case randomUUID w of
             (fileId, w0) \<Rightarrow>
               (let fileName = originalname f in
                case read_stream sha256 (fragments f) (ending f) init_state w0 of
                  (Inl err, w1) \<Rightarrow>
                    (Status500 (''Error processing file: '' @ message err), w1)
                | (Inr s, w1) \<Rightarrow>
                    (let contentHash = digest_hex sha256 (contentHasher s) in
                     case putFileManifest fileId fileName (totalBytes s) (chunkHashes s)
                            contentHash w1 of
                       (Inl err, w2) \<Rightarrow>
                         (Status500 (''Error processing file: '' @ message err), w2)
                     | (Inr _, w2) \<Rightarrow>
                         (Status200
                            \<lparr>res_message = ok_message,
                             res_fileId = fileId, res_fileName = fileName,
                             res_size = totalBytes s,
                             res_chunks = length (chunkHashes s),
                             res_uploadedNewChunks = uploadedNewChunks s,
                             res_reusedChunks = reusedChunks s\<rparr>, w2)))))"

subsection \<open>Reference chunking and invariants of the handler's state\<close>

text \<open>\<open>spec_chunks n xs\<close> cuts \<open>xs\<close> into pieces of \<open>n\<close> elements, the last one holding
  the remainder. It is not part of the source; the proofs compare the handler with it.\<close>

function spec_chunks :: "nat \<Rightarrow> 'a list \<Rightarrow> 'a list list" where
  "spec_chunks n xs =
     (if n = 0 \<or> xs = [] then [] else take n xs # spec_chunks n (drop n xs))"
  by pat_completeness auto
termination
  by (relation "measure (\<lambda>(n, xs). length xs)") auto

declare spec_chunks.simps [simp del]

text \<open>All chunks but the last have \<open>n\<close> elements; the last has between \<open>1\<close> and \<open>n\<close>.\<close>

definition well_chunked :: "nat \<Rightarrow> 'a list list \<Rightarrow> bool" where
  "well_chunked n cs \<longleftrightarrow>
     (\<forall>c \<in> set (butlast cs). length c = n) \<and>
     (cs \<noteq> [] \<longrightarrow> 0 < length (last cs) \<and> length (last cs) \<le> n)"

text \<open>What holds of the local variables between two iterations of the loop.\<close>

definition chunker_inv :: "(buffer \<Rightarrow> digest) \<Rightarrow> upload_state \<Rightarrow> bool" where
  "chunker_inv sha256 s \<longleftrightarrow>
     concat (emitted s) @ buffered s = contentHasher s \<and>
     totalBytes s = length (contentHasher s) \<and>
     (\<forall>c \<in> set (emitted s). length c = CHUNK_SIZE) \<and>
     chunkHashes s = map (sha256Hex sha256) (emitted s) \<and>
     length (chunkHashes s) = uploadedNewChunks s + reusedChunks s"

text \<open>What holds of the local variables when the promise resolves.\<close>

definition finished :: "(buffer \<Rightarrow> digest) \<Rightarrow> upload_state \<Rightarrow> bool" where
  "finished sha256 s \<longleftrightarrow>
     concat (emitted s) = contentHasher s \<and>
     totalBytes s = length (contentHasher s) \<and>
     well_chunked CHUNK_SIZE (emitted s) \<and>
     chunkHashes s = map (sha256Hex sha256) (emitted s) \<and>
     length (chunkHashes s) = uploadedNewChunks s + reusedChunks s"


subsection \<open>What a run leaves of the world\<close>

text \<open>\<open>evolves w w' ext\<close>: from \<open>w\<close> to \<open>w'\<close> this process has sent exactly the commands
  \<open>ext\<close>; the table of manifests, the random source and the clock are as they were, and
  the chunk index has lost no record.\<close>

definition evolves :: "world \<Rightarrow> world \<Rightarrow> (command \<times> error option) list \<Rightarrow> bool" where
  "evolves w w' ext \<longleftrightarrow>
     log w' = log w @ ext \<and> files_table w' = files_table w \<and>
     uuid_source w' = uuid_source w \<and> uuid_drawn w' = uuid_drawn w \<and>
     clock w' = clock w \<and> dom (chunks_table w) \<subseteq> dom (chunks_table w')"

text \<open>The conditional put of lines 45-54 is the only command whose failure the handler
  tolerates.\<close>

fun is_index_insert :: "command \<Rightarrow> bool" where
  "is_index_insert (PutChunkItemCommand t it) = True"
| "is_index_insert c = False"

definition tolerated :: "command \<times> error option \<Rightarrow> bool" where
  "tolerated x \<longleftrightarrow> snd x = None \<or> is_index_insert (fst x)"

text \<open>A call that threw may have sent anything; one that returned has only sent commands
  that succeeded or whose failure is tolerated.\<close>

definition settled :: "(error + 'a) \<Rightarrow> (command \<times> error option) list \<Rightarrow> bool" where
  "settled r ext \<longleftrightarrow> (case r of Inl e \<Rightarrow> True | Inr x \<Rightarrow> list_all tolerated ext)"





text \<open>No call that the script still has to serve fails.\<close>

definition fault_free :: "world \<Rightarrow> bool" where
  "fault_free w \<longleftrightarrow> list_all (\<lambda>e. fault e = None) (script w)"

subsection \<open>Example inputs\<close>

text \<open>A stand-in for SHA-256 that the simplifier can run, a world with empty tables and
  an empty script, and two files with the same \<open>CHUNK_SIZE + 2\<close> bytes, fragmented
  differently.\<close>

definition checksum :: "buffer \<Rightarrow> digest" where
  "checksum b = replicate (unat (sum_list b)) (CHR ''a'')"

definition quiet_world :: world where
  "quiet_world = \<lparr>chunks_table = Map.empty, files_table = Map.empty, bucket = Map.empty,
     clock = ''t'', uuid_source = (\<lambda>n. ''id-'' @ replicate n (CHR ''x'')), uuid_drawn = 0,
     script = [], log = []\<rparr>"

definition example_file :: upload_file where
  "example_file =
     \<lparr>originalname = ''a.bin'', fragments = [replicate CHUNK_SIZE 0 @ [1], [2]], ending = End\<rparr>"

definition example_file' :: upload_file where
  "example_file' =
     \<lparr>originalname = ''b.bin'', fragments = [replicate CHUNK_SIZE 0, [1, 2]], ending = End\<rparr>"


definition stocked_world :: world where
  "stocked_world = quiet_world
     \<lparr>chunks_table :=
        [''aaa'' \<mapsto> \<lparr>chunk_hash = ''aaa'', chunk_size = 2, chunk_s3Key = ''chunks/aaa'',
                      chunk_createdAt = ''s''\<rparr>]\<rparr>"

definition empty_file :: upload_file where
  "empty_file = \<lparr>originalname = ''empty.txt'', fragments = [[]], ending = End\<rparr>"


definition small_file :: upload_file where
  "small_file = \<lparr>originalname = ''d.bin'', fragments = [[1, 2]], ending = End\<rparr>"



definition no_index_world :: world where
  "no_index_world = quiet_world
     \<lparr>script :=
        [\<lparr>arrivals = [], fault = None\<rparr>,
         \<lparr>arrivals = [], fault = None\<rparr>,
         \<lparr>arrivals = [],
          fault = Some (ServiceError ''ProvisionedThroughputExceededException'')\<rparr>]\<rparr>"

text \<open>A world whose random source returns the same identifier at every draw.\<close>

definition stuck_world :: world where
  "stuck_world = quiet_world\<lparr>uuid_source := (\<lambda>n. ''id-'')\<rparr>"

section \<open>Properties\<close>

subsection \<open>The chunking loop\<close>

lemma chunk_loop_step:
  "CHUNK_SIZE \<le> length (buffered s) \<Longrightarrow>
     chunk_loop sha256 s w =
       (case process_chunk sha256 (take CHUNK_SIZE (buffered s))
                (s\<lparr>buffered := drop CHUNK_SIZE (buffered s)\<rparr>) w of
           (Inl e, w') \<Rightarrow> (Inl e, w')
         | (Inr s', w') \<Rightarrow> chunk_loop sha256 s' w')"
  by (simp add: chunk_loop.simps [of sha256 s w])

lemma chunk_loop_done:
  "length (buffered s) < CHUNK_SIZE \<Longrightarrow> chunk_loop sha256 s w = (Inr s, w)"
  by (simp add: chunk_loop.simps [of sha256 s w])

lemma CHUNK_SIZE_pos: "0 < CHUNK_SIZE"
  by (simp add: CHUNK_SIZE_def)

lemma spec_chunks_concat:
  "0 < n \<Longrightarrow> well_chunked n cs \<Longrightarrow> spec_chunks n (concat cs) = cs"
proof (induction cs)
  case Nil
  then show ?case by (simp add: spec_chunks.simps)
next
  case (Cons c cs)
  show ?case
  proof (cases "cs = []")
    case True
    with Cons.prems have "c \<noteq> []" "length c \<le> n"
      by (auto simp: well_chunked_def)
    with True Cons.prems(1) show ?thesis
      by (simp add: spec_chunks.simps [of n c] spec_chunks.simps [of n "[]"])
  next
    case False
    with Cons.prems have len: "length c = n" and rest: "well_chunked n cs"
      by (auto simp: well_chunked_def)
    from len Cons.prems(1) have "c \<noteq> []" by auto
    with len Cons.prems(1) Cons.IH [OF Cons.prems(1) rest] show ?thesis
      by (simp add: spec_chunks.simps [of n "c @ concat cs"])
  qed
qed

lemma process_chunk_Inr:
  assumes "process_chunk sha256 chunk s w = (Inr s', w')"
  shows "buffered s' = buffered s"
    and "contentHasher s' = contentHasher s"
    and "totalBytes s' = totalBytes s"
    and "chunkHashes s' = chunkHashes s @ [sha256Hex sha256 chunk]"
    and "emitted s' = emitted s @ [chunk]"
    and "uploadedNewChunks s' + reusedChunks s' = Suc (uploadedNewChunks s + reusedChunks s)"
  using assms
  by (auto simp: process_chunk_def Let_def split: prod.splits sum.splits if_splits)

lemma chunk_loop_inv:
  "chunk_loop sha256 s w = (Inr s', w') \<Longrightarrow> chunker_inv sha256 s \<Longrightarrow>
     chunker_inv sha256 s' \<and> length (buffered s') < CHUNK_SIZE \<and>
     contentHasher s' = contentHasher s"
proof (induction sha256 s w rule: chunk_loop.induct)
  case (1 sha256 s w)
  show ?case
  proof (cases "CHUNK_SIZE \<le> length (buffered s)")
    case False
    with "1.prems" show ?thesis
      by (simp add: chunk_loop.simps [of sha256 s w])
  next
    case True
    let ?c = "take CHUNK_SIZE (buffered s)"
    let ?s0 = "s\<lparr>buffered := drop CHUNK_SIZE (buffered s)\<rparr>"
    from True "1.prems"(1) obtain s1 w1 where
      pc: "process_chunk sha256 ?c ?s0 w = (Inr s1, w1)" and
      rest: "chunk_loop sha256 s1 w1 = (Inr s', w')"
      by (auto simp: chunk_loop.simps [of sha256 s w] split: prod.splits sum.splits)
    note f = process_chunk_Inr [OF pc]
    from True have lc: "length ?c = CHUNK_SIZE" by simp
    have "concat (emitted s1) @ buffered s1 = concat (emitted s) @ buffered s"
      using f by simp
    with "1.prems"(2) f lc have inv1: "chunker_inv sha256 s1"
      by (auto simp: chunker_inv_def)
    from "1.IH" [OF True pc [symmetric] refl rest inv1] f(2) show ?thesis
      by simp
  qed
qed

lemma on_data_inv:
  assumes "on_data sha256 d s w = (Inr s', w')" and "chunker_inv sha256 s"
  shows "chunker_inv sha256 s'" and "length (buffered s') < CHUNK_SIZE"
    and "contentHasher s' = contentHasher s @ d"
proof -
  let ?s0 = "s\<lparr>contentHasher := update (contentHasher s) d,
          totalBytes := totalBytes s + length d, buffered := buffered s @ d\<rparr>"
  from assms(2) have "chunker_inv sha256 ?s0"
    by (auto simp: chunker_inv_def update_def)
  moreover from assms(1) have "chunk_loop sha256 ?s0 w = (Inr s', w')"
    by (simp add: on_data_def)
  ultimately have r: "chunker_inv sha256 s' \<and> length (buffered s') < CHUNK_SIZE \<and>
     contentHasher s' = contentHasher ?s0"
    by (rule chunk_loop_inv [rotated])
  from r show "chunker_inv sha256 s'" by simp
  from r show "length (buffered s') < CHUNK_SIZE" by simp
  from r show "contentHasher s' = contentHasher s @ d" by (simp add: update_def)
qed

lemma on_end_finished:
  assumes "on_end sha256 s w = (Inr s', w')" and "chunker_inv sha256 s"
    and "length (buffered s) < CHUNK_SIZE"
  shows "finished sha256 s' \<and> contentHasher s' = contentHasher s"
proof (cases "buffered s = []")
  case True
  with assms(1) have "s' = s" by (simp add: on_end_def)
  with True assms(2) CHUNK_SIZE_pos show ?thesis
    by (auto simp: finished_def chunker_inv_def well_chunked_def dest: in_set_butlastD)
next
  case False
  with assms(1) have pc: "process_chunk sha256 (buffered s) s w = (Inr s', w')"
    by (simp add: on_end_def)
  note f = process_chunk_Inr [OF pc]
  from f False assms(2,3) show ?thesis
    by (auto simp: finished_def chunker_inv_def well_chunked_def)
qed

lemma read_stream_finished:
  "read_stream sha256 frags fin s w = (Inr s', w') \<Longrightarrow> chunker_inv sha256 s \<Longrightarrow>
     length (buffered s) < CHUNK_SIZE \<Longrightarrow>
     fin = End \<and> finished sha256 s' \<and> contentHasher s' = contentHasher s @ concat frags"
proof (induction frags arbitrary: s w)
  case Nil
  then show ?case
    by (cases fin) (auto dest: on_end_finished)
next
  case (Cons d frags)
  from Cons.prems(1) obtain s1 w1 where
    od: "on_data sha256 d s w = (Inr s1, w1)" and
    rest: "read_stream sha256 frags fin s1 w1 = (Inr s', w')"
    by (auto split: prod.splits sum.splits)
  note f = on_data_inv [OF od Cons.prems(2)]
  from Cons.IH [OF rest f(1) f(2)] f(3) show ?case by simp
qed

lemma init_state_inv: "chunker_inv sha256 init_state" "length (buffered init_state) < CHUNK_SIZE"
  by (simp_all add: chunker_inv_def init_state_def createHash_def CHUNK_SIZE_def)

lemma read_stream_init:
  assumes "read_stream sha256 frags fin init_state w = (Inr s', w')"
  shows "fin = End" and "finished sha256 s'" and "contentHasher s' = concat frags"
  using read_stream_finished [OF assms init_state_inv]
  by (simp_all add: init_state_def createHash_def)

lemma finished_emitted:
  "finished sha256 s \<Longrightarrow> emitted s = spec_chunks CHUNK_SIZE (contentHasher s)"
  using spec_chunks_concat [OF CHUNK_SIZE_pos, of "emitted s"]
  by (simp add: finished_def)

lemma upload_handler_200:
  assumes "upload_handler sha256 (Some f) w = (Status200 r, w')"
  obtains s w1 where
    "read_stream sha256 (fragments f) (ending f) init_state (snd (randomUUID w)) = (Inr s, w1)"
    and "putFileManifest (fst (randomUUID w)) (originalname f) (totalBytes s) (chunkHashes s)
           (digest_hex sha256 (contentHasher s)) w1 = (Inr (), w')"
    and "r = \<lparr>res_message = ok_message, res_fileId = fst (randomUUID w),
              res_fileName = originalname f,
              res_size = totalBytes s, res_chunks = length (chunkHashes s),
              res_uploadedNewChunks = uploadedNewChunks s,
              res_reusedChunks = reusedChunks s\<rparr>"
  using assms
  by (auto simp: upload_handler_def Let_def split: prod.splits sum.splits)

lemma putFileManifest_Inr:
  assumes "putFileManifest fid nm sz hs ch w = (Inr u, w')"
  shows "files_table w' = (files_table w)(fid \<mapsto>
           \<lparr>item_fileId = fid, item_fileName = nm, item_size = sz, item_uploadDate = clock w,
            item_contentHash = ch, item_chunkHashes = hs\<rparr>)"
  using assms
  by (auto simp: putFileManifest_def send_PutFileItem_def env_turn_def logged_def
      split: prod.splits option.splits list.splits)

lemma upload_handler_manifest:
  assumes "upload_handler sha256 (Some f) w = (Status200 r, w')"
  obtains s w1 where
    "read_stream sha256 (fragments f) (ending f) init_state (snd (randomUUID w)) = (Inr s, w1)"
    and "files_table w' (res_fileId r) =
       Some \<lparr>item_fileId = res_fileId r, item_fileName = originalname f,
             item_size = totalBytes s, item_uploadDate = clock w1,
             item_contentHash = sha256 (contentHasher s), item_chunkHashes = chunkHashes s\<rparr>"
    and "res_chunks r = length (chunkHashes s)"
    and "res_uploadedNewChunks r = uploadedNewChunks s"
    and "res_reusedChunks r = reusedChunks s"
    and "res_size r = totalBytes s"
    and "res_fileId r = uuid_source w (uuid_drawn w)"
proof -
  from assms obtain s w1 where
    rs: "read_stream sha256 (fragments f) (ending f) init_state (snd (randomUUID w)) = (Inr s, w1)"
    and pm: "putFileManifest (fst (randomUUID w)) (originalname f) (totalBytes s) (chunkHashes s)
           (digest_hex sha256 (contentHasher s)) w1 = (Inr (), w')"
    and r: "r = \<lparr>res_message = ok_message, res_fileId = fst (randomUUID w),
              res_fileName = originalname f,
              res_size = totalBytes s, res_chunks = length (chunkHashes s),
              res_uploadedNewChunks = uploadedNewChunks s,
              res_reusedChunks = reusedChunks s\<rparr>"
    by (rule upload_handler_200)
  from putFileManifest_Inr [OF pm] r
  have "files_table w' (res_fileId r) =
       Some \<lparr>item_fileId = res_fileId r, item_fileName = originalname f,
             item_size = totalBytes s, item_uploadDate = clock w1,
             item_contentHash = sha256 (contentHasher s), item_chunkHashes = chunkHashes s\<rparr>"
    by (simp add: digest_hex_def)
  with rs r show thesis
    by (intro that [of s w1]) (simp_all add: randomUUID_def)
qed

subsection \<open>Commands sent and what they change\<close>

lemma evolves_refl: "evolves w w []"
  by (simp add: evolves_def)

lemma evolves_trans:
  "evolves w w1 e1 \<Longrightarrow> evolves w1 w2 e2 \<Longrightarrow> evolves w w2 (e1 @ e2)"
  by (auto simp: evolves_def)

lemma dom_concurrent_insert: "dom t \<subseteq> dom (concurrent_insert t it)"
  by (auto simp: concurrent_insert_def split: option.splits)

lemma dom_foldl_concurrent_insert: "dom t \<subseteq> dom (foldl concurrent_insert t its)"
proof (induction its arbitrary: t)
  case Nil
  show ?case by simp
next
  case (Cons it its)
  from dom_concurrent_insert [of t it] Cons.IH [of "concurrent_insert t it"]
  show ?case by auto
qed

lemma env_turn_evolves:
  assumes "env_turn w = (r, w1)"
  shows "evolves w w1 []"
proof (cases "script w")
  case Nil
  with assms show ?thesis by (simp add: env_turn_def evolves_def)
next
  case (Cons e es)
  with assms have "w1 = w\<lparr>chunks_table := foldl concurrent_insert (chunks_table w) (arrivals e),
      script := es\<rparr>"
    by (simp add: env_turn_def)
  then show ?thesis
    by (simp add: evolves_def dom_foldl_concurrent_insert)
qed

lemma env_turn_bucket: "env_turn w = (r, w1) \<Longrightarrow> bucket w1 = bucket w"
  by (auto simp: env_turn_def split: list.splits)

lemma send_GetItem_evolves:
  assumes "send_GetItem h w = (r, w')"
  shows "evolves w w' [(GetItemCommand CHUNKS_TABLE h, case r of Inl e \<Rightarrow> Some e | Inr _ \<Rightarrow> None)]"
proof -
  obtain f w1 where t: "env_turn w = (f, w1)" by (cases "env_turn w")
  from env_turn_evolves [OF t] assms t show ?thesis
    by (auto simp: send_GetItem_def evolves_def logged_def split: option.splits)
qed

lemma send_GetItem_bucket: "send_GetItem h w = (r, w') \<Longrightarrow> bucket w' = bucket w"
  by (cases "env_turn w")
    (auto simp: send_GetItem_def logged_def split: option.splits dest: env_turn_bucket)

lemma send_GetItem_present:
  assumes "send_GetItem h w = (r, w')" and "h \<in> dom (chunks_table w)"
  shows "(\<exists>e. r = Inl e) \<or> (\<exists>it. r = Inr (Some it))"
proof -
  obtain f w1 where t: "env_turn w = (f, w1)" by (cases "env_turn w")
  from env_turn_evolves [OF t] assms(2) have "h \<in> dom (chunks_table w1)"
    by (auto simp: evolves_def)
  with assms(1) t show ?thesis
    by (auto simp: send_GetItem_def logged_def split: option.splits)
qed

lemma send_PutObject_evolves:
  assumes "send_PutObject k body w = (r, w')"
  shows "evolves w w'
     [(PutObjectCommand BUCKET_NAME k body, case r of Inl e \<Rightarrow> Some e | Inr _ \<Rightarrow> None)]"
proof -
  obtain f w1 where t: "env_turn w = (f, w1)" by (cases "env_turn w")
  from env_turn_evolves [OF t] assms t show ?thesis
    by (auto simp: send_PutObject_def evolves_def logged_def split: option.splits)
qed


lemma send_PutChunkItem_evolves:
  assumes "send_PutChunkItem it w = (r, w')"
  shows "evolves w w'
     [(PutChunkItemCommand CHUNKS_TABLE it, case r of Inl e \<Rightarrow> Some e | Inr _ \<Rightarrow> None)]"
proof -
  obtain f w1 where t: "env_turn w = (f, w1)" by (cases "env_turn w")
  from env_turn_evolves [OF t] assms t show ?thesis
    by (auto simp: send_PutChunkItem_def evolves_def logged_def split: option.splits)
qed


lemma ensureChunkStored_present:
  assumes "send_GetItem h w = (Inr (Some it), w1)"
  shows "ensureChunkStored h c w = (Inr True, w1)"
  using assms by (simp add: ensureChunkStored_def)


lemma ensureChunkStored_Inr:
  assumes "ensureChunkStored h c w = (Inr existed, w')"
  obtains present w1 where "send_GetItem h w = (Inr present, w1)"
    and "existed \<longleftrightarrow> present \<noteq> None"
  using assms
  by (auto simp: ensureChunkStored_def Let_def split: prod.splits sum.splits option.splits)

lemma ensureChunkStored_evolves:
  assumes "ensureChunkStored h c w = (r, w')"
  shows "\<exists>ext. evolves w w' ext \<and> settled r ext"
proof -
  obtain rg w1 where g: "send_GetItem h w = (rg, w1)" by (cases "send_GetItem h w")
  note eg = send_GetItem_evolves [OF g]
  show ?thesis
  proof (cases rg)
    case (Inl e)
    with assms g eg show ?thesis
      by (auto simp: ensureChunkStored_def settled_def)
  next
    case (Inr present)
    show ?thesis
    proof (cases present)
      case (Some it)
      with Inr assms g eg show ?thesis
        by (auto simp: ensureChunkStored_def settled_def tolerated_def)
    next
      case None
      obtain rp w2 where p: "send_PutObject (''chunks/'' @ h) c w1 = (rp, w2)"
        by (cases "send_PutObject (''chunks/'' @ h) c w1")
      note ep = evolves_trans [OF eg send_PutObject_evolves [OF p]]
      show ?thesis
      proof (cases rp)
        case (Inl e)
        with None Inr assms g p ep show ?thesis
          by (auto simp: ensureChunkStored_def settled_def)
      next
        case (Inr u)
        obtain ri w3 where i: "send_PutChunkItem \<lparr>chunk_hash = h, chunk_size = length c,
             chunk_s3Key = ''chunks/'' @ h, chunk_createdAt = clock w2\<rparr> w2 = (ri, w3)"
          by (cases "send_PutChunkItem \<lparr>chunk_hash = h, chunk_size = length c,
             chunk_s3Key = ''chunks/'' @ h, chunk_createdAt = clock w2\<rparr> w2")
        note ei = evolves_trans [OF ep send_PutChunkItem_evolves [OF i]]
        from None \<open>rg = Inr present\<close> Inr assms g p i have "r = Inr False" "w' = w3"
          by (auto simp: ensureChunkStored_def)
        with ei None \<open>rg = Inr present\<close> Inr show ?thesis
          by (auto simp: settled_def tolerated_def)
      qed
    qed
  qed
qed

lemma process_chunk_evolves:
  assumes "process_chunk sha256 chunk s w = (r, w')"
  shows "\<exists>ext. evolves w w' ext \<and> settled r ext"
proof -
  obtain re w1 where e: "ensureChunkStored (sha256Hex sha256 chunk) chunk w = (re, w1)"
    by (cases "ensureChunkStored (sha256Hex sha256 chunk) chunk w")
  from ensureChunkStored_evolves [OF e] obtain ext where
    "evolves w w1 ext" "settled re ext" by blast
  with assms e show ?thesis
    by (cases re) (auto simp: process_chunk_def settled_def)
qed

lemma settled_append:
  "settled (Inr x) e1 \<Longrightarrow> settled r e2 \<Longrightarrow> settled r (e1 @ e2)"
  by (cases r) (auto simp: settled_def)

lemma evolves_idle: "\<exists>ext. evolves w w ext \<and> settled r ext"
  by (rule exI [of _ "[]"]) (simp add: evolves_refl settled_def split: sum.splits)

lemma chunk_loop_evolves:
  "chunk_loop sha256 s w = (r, w') \<Longrightarrow> \<exists>ext. evolves w w' ext \<and> settled r ext"
proof (induction sha256 s w rule: chunk_loop.induct)
  case (1 sha256 s w)
  show ?case
  proof (cases "CHUNK_SIZE \<le> length (buffered s)")
    case False
    with "1.prems" have "r = Inr s" "w' = w"
      by (simp_all add: chunk_loop.simps [of sha256 s w])
    then show ?thesis
      using evolves_idle by simp
  next
    case True
    let ?c = "take CHUNK_SIZE (buffered s)"
    let ?s0 = "s\<lparr>buffered := drop CHUNK_SIZE (buffered s)\<rparr>"
    obtain rp w1 where pc: "process_chunk sha256 ?c ?s0 w = (rp, w1)"
      by (cases "process_chunk sha256 ?c ?s0 w")
    from process_chunk_evolves [OF pc] obtain e1 where
      e1: "evolves w w1 e1" "settled rp e1" by blast
    show ?thesis
    proof (cases rp)
      case (Inl e)
      with True pc "1.prems" have "r = Inl e" "w' = w1"
        by (simp_all add: chunk_loop.simps [of sha256 s w])
      with e1 show ?thesis by (auto simp: settled_def)
    next
      case (Inr s1)
      with True pc "1.prems" have rest: "chunk_loop sha256 s1 w1 = (r, w')"
        by (simp add: chunk_loop.simps [of sha256 s w])
      from "1.IH" [OF True pc [symmetric] Inr rest] obtain e2 where
        e2: "evolves w1 w' e2" "settled r e2" by blast
      from e1 e2 Inr show ?thesis
        by (blast intro: evolves_trans settled_append)
    qed
  qed
qed

lemma read_stream_evolves:
  "read_stream sha256 frags fin s w = (r, w') \<Longrightarrow> \<exists>ext. evolves w w' ext \<and> settled r ext"
proof (induction frags arbitrary: s w)
  case Nil
  show ?case
  proof (cases fin)
    case End
    with Nil show ?thesis
      using evolves_idle process_chunk_evolves
      by (auto simp: on_end_def split: if_splits)
  next
    case (Error m)
    with Nil show ?thesis
      using evolves_idle by auto
  qed
next
  case (Cons d frags)
  obtain rd w1 where od: "on_data sha256 d s w = (rd, w1)"
    by (cases "on_data sha256 d s w")
  then have "\<exists>ext. evolves w w1 ext \<and> settled rd ext"
    unfolding on_data_def by (rule chunk_loop_evolves)
  then obtain e1 where e1: "evolves w w1 e1" "settled rd e1" by blast
  show ?case
  proof (cases rd)
    case (Inl e)
    with od Cons.prems have "r = Inl e" "w' = w1" by simp_all
    with e1 show ?thesis by (auto simp: settled_def)
  next
    case (Inr s1)
    with od Cons.prems have "read_stream sha256 frags fin s1 w1 = (r, w')" by simp
    from Cons.IH [OF this] obtain e2 where "evolves w1 w' e2" "settled r e2" by blast
    with e1 Inr show ?thesis
      by (blast intro: evolves_trans settled_append)
  qed
qed


lemma send_PutFileItem_frame:
  assumes "send_PutFileItem it w = (r, w')"
  shows "uuid_source w' = uuid_source w" and "uuid_drawn w' = uuid_drawn w"
    and "dom (chunks_table w) \<subseteq> dom (chunks_table w')"
proof -
  obtain f w1 where t: "env_turn w = (f, w1)" by (cases "env_turn w")
  from env_turn_evolves [OF t] assms t
  show "uuid_source w' = uuid_source w" and "uuid_drawn w' = uuid_drawn w"
    and "dom (chunks_table w) \<subseteq> dom (chunks_table w')"
    by (cases f; auto simp: send_PutFileItem_def evolves_def logged_def)+
qed


lemma process_chunk_reused:
  assumes "process_chunk sha256 c s w = (Inr s', w')"
    and "sha256Hex sha256 c \<in> dom (chunks_table w)"
  shows "uploadedNewChunks s' = uploadedNewChunks s"
proof -
  from assms(1) obtain existed where
    e: "ensureChunkStored (sha256Hex sha256 c) c w = (Inr existed, w')" and
    s': "s' = (if existed then s\<lparr>reusedChunks := reusedChunks s + 1\<rparr>
                 else s\<lparr>uploadedNewChunks := uploadedNewChunks s + 1\<rparr>)
                \<lparr>chunkHashes := chunkHashes s @ [sha256Hex sha256 c],
                 emitted := emitted s @ [c]\<rparr>"
    by (auto simp: process_chunk_def Let_def split: prod.splits sum.splits)
  from e obtain present w1 where
    g: "send_GetItem (sha256Hex sha256 c) w = (Inr present, w1)"
    and ex: "existed \<longleftrightarrow> present \<noteq> None"
    by (rule ensureChunkStored_Inr)
  from send_GetItem_present [OF g assms(2)] ex have existed by auto
  with s' show ?thesis by simp
qed

lemma chunk_loop_reused:
  "chunk_loop sha256 s w = (Inr s', w') \<Longrightarrow> set (chunkHashes s') \<subseteq> dom (chunks_table w) \<Longrightarrow>
     uploadedNewChunks s' = uploadedNewChunks s \<and> set (chunkHashes s) \<subseteq> set (chunkHashes s')"
proof (induction sha256 s w rule: chunk_loop.induct)
  case (1 sha256 s w)
  show ?case
  proof (cases "CHUNK_SIZE \<le> length (buffered s)")
    case False
    with "1.prems" show ?thesis
      by (simp add: chunk_loop.simps [of sha256 s w])
  next
    case True
    let ?c = "take CHUNK_SIZE (buffered s)"
    let ?s0 = "s\<lparr>buffered := drop CHUNK_SIZE (buffered s)\<rparr>"
    from True "1.prems"(1) obtain s1 w1 where
      pc: "process_chunk sha256 ?c ?s0 w = (Inr s1, w1)" and
      rest: "chunk_loop sha256 s1 w1 = (Inr s', w')"
      by (auto simp: chunk_loop.simps [of sha256 s w] split: prod.splits sum.splits)
    from process_chunk_evolves [OF pc] have "dom (chunks_table w) \<subseteq> dom (chunks_table w1)"
      by (auto simp: evolves_def)
    with "1.prems"(2) have sub1: "set (chunkHashes s') \<subseteq> dom (chunks_table w1)" by blast
    from "1.IH" [OF True pc [symmetric] refl rest sub1]
    have ih: "uploadedNewChunks s' = uploadedNewChunks s1"
      "set (chunkHashes s1) \<subseteq> set (chunkHashes s')" by simp_all
    note f = process_chunk_Inr [OF pc]
    from f(4) ih(2) "1.prems"(2) have "sha256Hex sha256 ?c \<in> dom (chunks_table w)"
      by auto
    from process_chunk_reused [OF pc this] ih f(4) show ?thesis by auto
  qed
qed

lemma read_stream_reused:
  "read_stream sha256 frags fin s w = (Inr s', w') \<Longrightarrow>
     set (chunkHashes s') \<subseteq> dom (chunks_table w) \<Longrightarrow>
     uploadedNewChunks s' = uploadedNewChunks s \<and> set (chunkHashes s) \<subseteq> set (chunkHashes s')"
proof (induction frags arbitrary: s w)
  case Nil
  from Nil.prems(1) have fin: "fin = End" and oe: "on_end sha256 s w = (Inr s', w')"
    by (cases fin; simp)+
  show ?case
  proof (cases "buffered s = []")
    case True
    with oe show ?thesis by (simp add: on_end_def)
  next
    case False
    with oe have pc: "process_chunk sha256 (buffered s) s w = (Inr s', w')"
      by (simp add: on_end_def)
    note f = process_chunk_Inr [OF pc]
    from f(4) Nil.prems(2) have "sha256Hex sha256 (buffered s) \<in> dom (chunks_table w)"
      by auto
    from process_chunk_reused [OF pc this] f(4) show ?thesis by auto
  qed
next
  case (Cons d frags)
  from Cons.prems(1) obtain s1 w1 where
    od: "on_data sha256 d s w = (Inr s1, w1)" and
    rest: "read_stream sha256 frags fin s1 w1 = (Inr s', w')"
    by (auto split: prod.splits sum.splits)
  let ?s0 = "s\<lparr>contentHasher := update (contentHasher s) d,
          totalBytes := totalBytes s + length d, buffered := buffered s @ d\<rparr>"
  from od have cl: "chunk_loop sha256 ?s0 w = (Inr s1, w1)" by (simp add: on_data_def)
  from chunk_loop_evolves [OF cl] have "dom (chunks_table w) \<subseteq> dom (chunks_table w1)"
    by (auto simp: evolves_def)
  with Cons.prems(2) have sub1: "set (chunkHashes s') \<subseteq> dom (chunks_table w1)" by blast
  from Cons.IH [OF rest sub1]
  have ih: "uploadedNewChunks s' = uploadedNewChunks s1"
    "set (chunkHashes s1) \<subseteq> set (chunkHashes s')" by simp_all
  from ih(2) Cons.prems(2) have "set (chunkHashes s1) \<subseteq> dom (chunks_table w)" by blast
  from chunk_loop_reused [OF cl this] ih show ?case by auto
qed

lemma upload_handler_world:
  assumes "upload_handler sha256 (Some f) w = (Status200 r, w')"
  shows "uuid_source w' = uuid_source w" and "uuid_drawn w' = Suc (uuid_drawn w)"
    and "\<forall>k. k \<noteq> res_fileId r \<longrightarrow> files_table w' k = files_table w k"
proof -
  from assms obtain s w1 where
    rs: "read_stream sha256 (fragments f) (ending f) init_state (snd (randomUUID w)) = (Inr s, w1)"
    and pm: "putFileManifest (fst (randomUUID w)) (originalname f) (totalBytes s) (chunkHashes s)
           (digest_hex sha256 (contentHasher s)) w1 = (Inr (), w')"
    and r: "r = \<lparr>res_message = ok_message, res_fileId = fst (randomUUID w),
              res_fileName = originalname f,
              res_size = totalBytes s, res_chunks = length (chunkHashes s),
              res_uploadedNewChunks = uploadedNewChunks s,
              res_reusedChunks = reusedChunks s\<rparr>"
    by (rule upload_handler_200)
  from read_stream_evolves [OF rs] obtain ext where ev: "evolves (snd (randomUUID w)) w1 ext"
    by blast
  from pm have pf: "send_PutFileItem \<lparr>item_fileId = fst (randomUUID w),
        item_fileName = originalname f, item_size = totalBytes s,
        item_uploadDate = clock w1, item_contentHash = digest_hex sha256 (contentHasher s),
        item_chunkHashes = chunkHashes s\<rparr> w1 = (Inr (), w')"
    by (simp add: putFileManifest_def)
  note fr = send_PutFileItem_frame [OF pf]
  from ev fr(1) show "uuid_source w' = uuid_source w"
    by (simp add: evolves_def randomUUID_def)
  from ev fr(2) show "uuid_drawn w' = Suc (uuid_drawn w)"
    by (simp add: evolves_def randomUUID_def)
  from putFileManifest_Inr [OF pm] ev r
  show "\<forall>k. k \<noteq> res_fileId r \<longrightarrow> files_table w' k = files_table w k"
    by (simp add: evolves_def randomUUID_def)
qed

subsection \<open>Stopping at the first failure\<close>











subsection \<open>Runs without faults\<close>

text \<open>When no call to AWS fails and the stream ends normally, the upload is answered with
  status 200: a lost race is not a failure.\<close>

lemma env_turn_fault_free:
  assumes "fault_free w"
  obtains w1 where "env_turn w = (None, w1)" and "fault_free w1"
  using assms
  by (cases "script w") (auto simp: env_turn_def fault_free_def)

lemma fault_free_frame:
  "fault_free (logged c r w) = fault_free w"
  "fault_free (w\<lparr>bucket := b\<rparr>) = fault_free w"
  "fault_free (w\<lparr>chunks_table := t\<rparr>) = fault_free w"
  "fault_free (w\<lparr>uuid_drawn := n\<rparr>) = fault_free w"
  by (simp_all add: logged_def fault_free_def)

lemma send_PutChunkItem_fault_free:
  assumes "fault_free w" and "send_PutChunkItem it w = (r, w')"
  shows "fault_free w'"
proof -
  from assms(1) obtain w1 where t: "env_turn w = (None, w1)" and f: "fault_free w1"
    by (rule env_turn_fault_free)
  show ?thesis
  proof (cases "chunks_table w1 (chunk_hash it)")
    case None
    with t assms(2) have "w' = logged (PutChunkItemCommand CHUNKS_TABLE it) None
        (w1\<lparr>chunks_table := (chunks_table w1)(chunk_hash it \<mapsto> it)\<rparr>)"
      by (simp add: send_PutChunkItem_def)
    with f show ?thesis by (simp add: fault_free_frame)
  next
    case (Some old)
    with t assms(2) have "w' = logged (PutChunkItemCommand CHUNKS_TABLE it)
        (Some ConditionalCheckFailedException) w1"
      by (simp add: send_PutChunkItem_def)
    with f show ?thesis by (simp add: fault_free_frame)
  qed
qed

lemma ensureChunkStored_fault_free:
  assumes "fault_free w"
  obtains existed w' where "ensureChunkStored h c w = (Inr existed, w')" and "fault_free w'"
proof -
  from assms obtain w1 where t1: "env_turn w = (None, w1)" and f1: "fault_free w1"
    by (rule env_turn_fault_free)
  let ?wg = "logged (GetItemCommand CHUNKS_TABLE h) None w1"
  have g: "send_GetItem h w = (Inr (chunks_table w1 h), ?wg)"
    using t1 by (simp add: send_GetItem_def)
  from f1 have fg: "fault_free ?wg" by (simp add: fault_free_frame)
  show thesis
  proof (cases "chunks_table w1 h")
    case (Some it)
    with g have "ensureChunkStored h c w = (Inr True, ?wg)"
      by (simp add: ensureChunkStored_def)
    then show thesis using fg by (rule that)
  next
    case None
    from fg obtain w2 where t2: "env_turn ?wg = (None, w2)" and f2: "fault_free w2"
      by (rule env_turn_fault_free)
    let ?wp = "logged (PutObjectCommand BUCKET_NAME (''chunks/'' @ h) c) None
                 (w2\<lparr>bucket := (bucket w2)((''chunks/'' @ h) \<mapsto> c)\<rparr>)"
    have p: "send_PutObject (''chunks/'' @ h) c ?wg = (Inr (), ?wp)"
      using t2 by (simp add: send_PutObject_def)
    from f2 have fp: "fault_free ?wp"
      by (simp add: fault_free_frame)
    let ?it = "\<lparr>chunk_hash = h, chunk_size = length c, chunk_s3Key = ''chunks/'' @ h,
                chunk_createdAt = clock ?wp\<rparr>"
    obtain ri w4 where i: "send_PutChunkItem ?it ?wp = (ri, w4)"
      by (cases "send_PutChunkItem ?it ?wp")
    from send_PutChunkItem_fault_free [OF fp i] have f4: "fault_free w4" .
    from g None p i have "ensureChunkStored h c w = (Inr False, w4)"
      by (simp add: ensureChunkStored_def)
    then show thesis using f4 by (rule that)
  qed
qed

lemma process_chunk_fault_free:
  assumes "fault_free w"
  obtains s' w' where "process_chunk sha256 c s w = (Inr s', w')" and "fault_free w'"
proof -
  from assms obtain existed w' where
    "ensureChunkStored (sha256Hex sha256 c) c w = (Inr existed, w')" and "fault_free w'"
    by (rule ensureChunkStored_fault_free)
  then show thesis
    by (intro that [of _ w']) (simp_all add: process_chunk_def)
qed

lemma chunk_loop_fault_free:
  "fault_free w \<Longrightarrow> \<exists>s' w'. chunk_loop sha256 s w = (Inr s', w') \<and> fault_free w'"
proof (induction sha256 s w rule: chunk_loop.induct)
  case (1 sha256 s w)
  show ?case
  proof (cases "CHUNK_SIZE \<le> length (buffered s)")
    case False
    with "1.prems" show ?thesis
      by (simp add: chunk_loop.simps [of sha256 s w])
  next
    case True
    let ?c = "take CHUNK_SIZE (buffered s)"
    let ?s0 = "s\<lparr>buffered := drop CHUNK_SIZE (buffered s)\<rparr>"
    from "1.prems" obtain s1 w1 where
      pc: "process_chunk sha256 ?c ?s0 w = (Inr s1, w1)" and f1: "fault_free w1"
      by (rule process_chunk_fault_free)
    from "1.IH" [OF True pc [symmetric] refl f1] True pc show ?thesis
      by (simp add: chunk_loop.simps [of sha256 s w])
  qed
qed

lemma read_stream_succeeds:
  "fault_free w \<Longrightarrow> \<exists>s' w'. read_stream sha256 frags End s w = (Inr s', w') \<and> fault_free w'"
proof (induction frags arbitrary: s w)
  case Nil
  show ?case
  proof (cases "buffered s = []")
    case True
    with Nil show ?thesis by (simp add: on_end_def)
  next
    case False
    from Nil obtain s' w' where
      "process_chunk sha256 (buffered s) s w = (Inr s', w')" and "fault_free w'"
      by (rule process_chunk_fault_free)
    with False show ?thesis by (simp add: on_end_def)
  qed
next
  case (Cons d frags)
  from chunk_loop_fault_free [OF Cons.prems] obtain s1 w1 where
    od: "on_data sha256 d s w = (Inr s1, w1)" and f1: "fault_free w1"
    unfolding on_data_def by blast
  from Cons.IH [OF f1] od show ?case by simp
qed

lemma upload_handler_succeeds:
  assumes "fault_free w" and "ending f = End"
  shows "\<exists>r w'. upload_handler sha256 (Some f) w = (Status200 r, w')"
proof -
  from assms(1) have "fault_free (snd (randomUUID w))"
    by (simp add: randomUUID_def fault_free_frame)
  from read_stream_succeeds [OF this] assms(2) obtain s w1 where
    rs: "read_stream sha256 (fragments f) (ending f) init_state (snd (randomUUID w)) = (Inr s, w1)"
    and f1: "fault_free w1" by metis
  from f1 obtain w2 where "env_turn w1 = (None, w2)"
    by (rule env_turn_fault_free)
  then have "\<exists>w'. putFileManifest (fst (randomUUID w)) (originalname f) (totalBytes s)
      (chunkHashes s) (digest_hex sha256 (contentHasher s)) w1 = (Inr (), w')"
    by (simp add: putFileManifest_def send_PutFileItem_def)
  with rs show ?thesis
    by (auto simp: upload_handler_def Let_def split: prod.splits)
qed

subsection \<open>Evaluating the examples\<close>

lemma replicate_small:
  "replicate 2 x = [x, x]" "replicate 3 x = [x, x, x]"
  by (simp_all add: numeral_2_eq_2 numeral_3_eq_3)

lemmas run_defs =
  replicate_small on_data_def on_end_def init_state_def update_def createHash_def
  process_chunk_def ensureChunkStored_def send_GetItem_def send_PutObject_def
  send_PutChunkItem_def send_PutFileItem_def putFileManifest_def env_turn_def logged_def
  sha256Hex_def digest_hex_def Let_def chunk_loop_step chunk_loop_done CHUNK_SIZE_def
  sum_list_replicate checksum_def quiet_world_def upload_handler_def randomUUID_def
  concurrent_insert_def

subsection \<open>Chunk lengths\<close>

text \<open>
  Claim C1. When the stream has been read to its end, the chunks the handler has cut, in
  order, concatenate to the whole stream, so their lengths sum to the stream's length;
  every chunk but the last has exactly \<open>CHUNK_SIZE\<close> bytes, the last has between \<open>1\<close> and
  \<open>CHUNK_SIZE\<close>, and an empty stream gives no chunk.
\<close>

theorem chunker_lengths:
  assumes "read_stream sha256 frags fin init_state w = (Inr s', w')"
  shows "concat (emitted s') = concat frags \<and>
     sum_list (map length (emitted s')) = length (concat frags) \<and>
     (\<forall>c \<in> set (butlast (emitted s')). length c = CHUNK_SIZE) \<and>
     (emitted s' \<noteq> [] \<longrightarrow>
        0 < length (last (emitted s')) \<and> length (last (emitted s')) \<le> CHUNK_SIZE) \<and>
     (concat frags = [] \<longrightarrow> emitted s' = [])"
proof -
  note f = read_stream_init [OF assms]
  from f(2,3) have c: "concat (emitted s') = concat frags"
    and wc: "well_chunked CHUNK_SIZE (emitted s')"
    by (simp_all add: finished_def)
  from c have "length (concat (emitted s')) = length (concat frags)" by simp
  then have l: "sum_list (map length (emitted s')) = length (concat frags)"
    by (simp add: length_concat)
  have e: "emitted s' = []" if "concat frags = []"
  proof (rule ccontr)
    assume ne: "emitted s' \<noteq> []"
    with wc have "last (emitted s') \<noteq> []" by (auto simp: well_chunked_def)
    moreover from ne have "last (emitted s') \<in> set (emitted s')" by simp
    ultimately have "concat (emitted s') \<noteq> []" by auto
    with c that show False by simp
  qed
  from c l wc e show ?thesis by (simp add: well_chunked_def)
qed

theorem chunker_lengths_witness:
  "fst (read_stream checksum [replicate CHUNK_SIZE 0 @ [1], [2]] End init_state quiet_world) =
     Inr \<lparr>uploadedNewChunks = 2, reusedChunks = 0, buffered = [1, 2],
          chunkHashes = ['''', ''aaa''], contentHasher = replicate CHUNK_SIZE 0 @ [1, 2],
          totalBytes = CHUNK_SIZE + 2, emitted = [replicate CHUNK_SIZE 0, [1, 2]]\<rparr> \<and>
   concat [replicate CHUNK_SIZE 0, [1, 2 :: 8 word]] = concat [replicate CHUNK_SIZE 0 @ [1], [2]] \<and>
   sum_list (map length [replicate CHUNK_SIZE 0, [1, 2 :: 8 word]]) =
     length (concat [replicate CHUNK_SIZE 0 @ [1], [2 :: 8 word]]) \<and>
   length (replicate CHUNK_SIZE (0 :: 8 word)) = CHUNK_SIZE \<and>
   0 < length [1, 2 :: 8 word] \<and> length [1, 2 :: 8 word] \<le> CHUNK_SIZE"
proof -
  let ?run = "read_stream checksum [replicate CHUNK_SIZE 0 @ [1], [2]] End init_state quiet_world"
  let ?s = "\<lparr>uploadedNewChunks = 2, reusedChunks = 0, buffered = [1, 2],
          chunkHashes = ['''', ''aaa''], contentHasher = replicate CHUNK_SIZE 0 @ [1, 2],
          totalBytes = CHUNK_SIZE + 2, emitted = [replicate CHUNK_SIZE 0, [1, 2]]\<rparr>"
  have h: "fst ?run = Inr ?s"
    by (simp add: run_defs)
  then have "?run = (Inr ?s, snd ?run)"
    by (simp add: prod_eq_iff)
  from chunker_lengths [OF this] h show ?thesis
    by simp
qed


subsection \<open>Counters\<close>

text \<open>
  Claim C10. In every successful response, \<open>chunks\<close> is the sum of \<open>uploadedNewChunks\<close>
  and \<open>reusedChunks\<close>, and it is the length of the chunk list of the manifest stored
  under the response's \<open>fileId\<close>.
\<close>

theorem counters_add_up:
  assumes "upload_handler sha256 req w = (Status200 r, w')"
  shows "res_chunks r = res_uploadedNewChunks r + res_reusedChunks r \<and>
     (\<exists>m. files_table w' (res_fileId r) = Some m \<and> res_chunks r = length (item_chunkHashes m))"
proof (cases req)
  case None
  with assms show ?thesis by (simp add: upload_handler_def)
next
  case (Some f)
  with assms have "upload_handler sha256 (Some f) w = (Status200 r, w')" by simp
  then obtain s w1 where
    rs: "read_stream sha256 (fragments f) (ending f) init_state (snd (randomUUID w)) = (Inr s, w1)"
    and m: "files_table w' (res_fileId r) =
       Some \<lparr>item_fileId = res_fileId r, item_fileName = originalname f,
             item_size = totalBytes s, item_uploadDate = clock w1,
             item_contentHash = sha256 (contentHasher s), item_chunkHashes = chunkHashes s\<rparr>"
    and c: "res_chunks r = length (chunkHashes s)"
      "res_uploadedNewChunks r = uploadedNewChunks s" "res_reusedChunks r = reusedChunks s"
    by (rule upload_handler_manifest)
  from read_stream_init(2) [OF rs]
  have "length (chunkHashes s) = uploadedNewChunks s + reusedChunks s"
    unfolding finished_def by blast
  with m c show ?thesis by simp
qed

theorem counters_add_up_witness:
  "fst (upload_handler checksum (Some example_file) quiet_world) =
     Status200 \<lparr>res_message = ok_message, res_fileId = ''id-'',
       res_fileName = ''a.bin'', res_size = CHUNK_SIZE + 2,
       res_chunks = 2, res_uploadedNewChunks = 2, res_reusedChunks = 0\<rparr> \<and>
   (2 :: nat) = 2 + 0 \<and>
   (\<exists>m. files_table (snd (upload_handler checksum (Some example_file) quiet_world)) ''id-'' = Some m \<and>
        2 = length (item_chunkHashes m))"
proof -
  let ?run = "upload_handler checksum (Some example_file) quiet_world"
  let ?r = "\<lparr>res_message = ok_message, res_fileId = ''id-'',
       res_fileName = ''a.bin'', res_size = CHUNK_SIZE + 2,
       res_chunks = 2, res_uploadedNewChunks = 2, res_reusedChunks = 0\<rparr>"
  have h: "fst ?run = Status200 ?r"
    by (simp add: run_defs example_file_def)
  then have "?run = (Status200 ?r, snd ?run)"
    by (simp add: prod_eq_iff)
  from counters_add_up [OF this] h show ?thesis
    by simp
qed

subsection \<open>The manifest\<close>

text \<open>
  Claim C5. The manifest of a successful upload holds, as \<open>contentHash\<close>, the digest of
  the concatenation of all fragments of the stream, and as \<open>size\<close> the sum of the lengths
  of the chunks in order, which is the length of the stream; its chunk hashes are the
  digests of those chunks.
\<close>

theorem manifest_digest_and_size:
  assumes "upload_handler sha256 (Some f) w = (Status200 r, w')"
  shows "\<exists>m s w1.
     read_stream sha256 (fragments f) (ending f) init_state (snd (randomUUID w)) = (Inr s, w1) \<and>
     files_table w' (res_fileId r) = Some m \<and>
     item_contentHash m = sha256Hex sha256 (concat (fragments f)) \<and>
     item_chunkHashes m = map (sha256Hex sha256) (emitted s) \<and>
     item_size m = sum_list (map length (emitted s)) \<and>
     item_size m = length (concat (fragments f))"
proof -
  from assms obtain s w1 where
    rs: "read_stream sha256 (fragments f) (ending f) init_state (snd (randomUUID w)) = (Inr s, w1)"
    and m: "files_table w' (res_fileId r) =
       Some \<lparr>item_fileId = res_fileId r, item_fileName = originalname f,
             item_size = totalBytes s, item_uploadDate = clock w1,
             item_contentHash = sha256 (contentHasher s), item_chunkHashes = chunkHashes s\<rparr>"
    by (rule upload_handler_manifest)
  note f = read_stream_init [OF rs]
  from f(2) have fin: "concat (emitted s) = contentHasher s"
    "totalBytes s = length (contentHasher s)"
    "chunkHashes s = map (sha256Hex sha256) (emitted s)"
    unfolding finished_def by blast+
  from fin(1,2) have "totalBytes s = length (concat (emitted s))" by simp
  then have sz: "totalBytes s = sum_list (map length (emitted s))"
    by (simp add: length_concat)
  have h: "sha256 (contentHasher s) = sha256Hex sha256 (concat (fragments f))"
    by (simp add: f(3) sha256Hex_def digest_hex_def update_def createHash_def)
  from rs m fin(2,3) sz h f(3) show ?thesis
    by (intro exI [of _ "\<lparr>item_fileId = res_fileId r, item_fileName = originalname f,
             item_size = totalBytes s, item_uploadDate = clock w1,
             item_contentHash = sha256 (contentHasher s), item_chunkHashes = chunkHashes s\<rparr>"]
        exI [of _ s] exI [of _ w1]) simp
qed

theorem manifest_digest_and_size_witness:
  "fst (upload_handler checksum (Some example_file) quiet_world) =
     Status200 \<lparr>res_message = ok_message, res_fileId = ''id-'',
       res_fileName = ''a.bin'', res_size = CHUNK_SIZE + 2,
       res_chunks = 2, res_uploadedNewChunks = 2, res_reusedChunks = 0\<rparr> \<and>
   (\<exists>m s w1.
     read_stream checksum (fragments example_file) (ending example_file) init_state
       (snd (randomUUID quiet_world)) = (Inr s, w1) \<and>
     files_table (snd (upload_handler checksum (Some example_file) quiet_world)) ''id-'' = Some m \<and>
     item_contentHash m = sha256Hex checksum (concat (fragments example_file)) \<and>
     item_chunkHashes m = map (sha256Hex checksum) (emitted s) \<and>
     item_size m = sum_list (map length (emitted s)) \<and>
     item_size m = length (concat (fragments example_file)))"
proof -
  let ?run = "upload_handler checksum (Some example_file) quiet_world"
  let ?r = "\<lparr>res_message = ok_message, res_fileId = ''id-'',
       res_fileName = ''a.bin'', res_size = CHUNK_SIZE + 2,
       res_chunks = 2, res_uploadedNewChunks = 2, res_reusedChunks = 0\<rparr>"
  have h: "fst ?run = Status200 ?r"
    by (simp add: run_defs example_file_def)
  then have "?run = (Status200 ?r, snd ?run)"
    by (simp add: prod_eq_iff)
  from manifest_digest_and_size [OF this] h show ?thesis
    by simp
qed

subsection \<open>Fragment boundaries\<close>

text \<open>
  Claim C4. Two successful uploads whose streams carry the same bytes, cut into fragments
  in any two ways, store the same sequence of chunk digests: the digests of the chunks of
  \<open>CHUNK_SIZE\<close> bytes of the whole stream.
\<close>

theorem fragmentation_independent:
  assumes "upload_handler sha256 (Some f1) w1 = (Status200 r1, w1')"
    and "upload_handler sha256 (Some f2) w2 = (Status200 r2, w2')"
    and "concat (fragments f1) = concat (fragments f2)"
  shows "\<exists>m1 m2. files_table w1' (res_fileId r1) = Some m1 \<and>
     files_table w2' (res_fileId r2) = Some m2 \<and>
     item_chunkHashes m1 = item_chunkHashes m2 \<and>
     item_chunkHashes m1 =
       map (sha256Hex sha256) (spec_chunks CHUNK_SIZE (concat (fragments f1)))"
proof -
  have *: "\<exists>m. files_table w' (res_fileId r) = Some m \<and>
     item_chunkHashes m = map (sha256Hex sha256) (spec_chunks CHUNK_SIZE (concat (fragments f)))"
    if "upload_handler sha256 (Some f) w = (Status200 r, w')" for f w r w'
  proof -
    from that obtain s w1 where
      rs: "read_stream sha256 (fragments f) (ending f) init_state (snd (randomUUID w)) = (Inr s, w1)"
      and m: "files_table w' (res_fileId r) =
       Some \<lparr>item_fileId = res_fileId r, item_fileName = originalname f,
             item_size = totalBytes s, item_uploadDate = clock w1,
             item_contentHash = sha256 (contentHasher s), item_chunkHashes = chunkHashes s\<rparr>"
      by (rule upload_handler_manifest)
    note f = read_stream_init [OF rs]
    from f(2) have "chunkHashes s = map (sha256Hex sha256) (emitted s)"
      unfolding finished_def by blast
    with finished_emitted [OF f(2)] f(3) m show ?thesis by simp
  qed
  from * [OF assms(1)] * [OF assms(2)] assms(3) show ?thesis
    by auto
qed

theorem fragmentation_independent_witness:
  "fst (upload_handler checksum (Some example_file) quiet_world) =
     Status200 \<lparr>res_message = ok_message, res_fileId = ''id-'',
       res_fileName = ''a.bin'', res_size = CHUNK_SIZE + 2,
       res_chunks = 2, res_uploadedNewChunks = 2, res_reusedChunks = 0\<rparr> \<and>
   fst (upload_handler checksum (Some example_file') quiet_world) =
     Status200 \<lparr>res_message = ok_message, res_fileId = ''id-'',
       res_fileName = ''b.bin'', res_size = CHUNK_SIZE + 2,
       res_chunks = 2, res_uploadedNewChunks = 2, res_reusedChunks = 0\<rparr> \<and>
   fragments example_file \<noteq> fragments example_file' \<and>
   concat (fragments example_file) = concat (fragments example_file') \<and>
   (\<exists>m1 m2.
     files_table (snd (upload_handler checksum (Some example_file) quiet_world)) ''id-'' = Some m1 \<and>
     files_table (snd (upload_handler checksum (Some example_file') quiet_world)) ''id-'' = Some m2 \<and>
     item_chunkHashes m1 = item_chunkHashes m2 \<and>
     item_chunkHashes m1 =
       map (sha256Hex checksum) (spec_chunks CHUNK_SIZE (concat (fragments example_file))))"
proof -
  let ?run = "upload_handler checksum (Some example_file) quiet_world"
  let ?r = "\<lparr>res_message = ok_message, res_fileId = ''id-'',
       res_fileName = ''a.bin'', res_size = CHUNK_SIZE + 2,
       res_chunks = 2, res_uploadedNewChunks = 2, res_reusedChunks = 0\<rparr>"
  let ?run' = "upload_handler checksum (Some example_file') quiet_world"
  let ?r' = "\<lparr>res_message = ok_message, res_fileId = ''id-'',
       res_fileName = ''b.bin'', res_size = CHUNK_SIZE + 2,
       res_chunks = 2, res_uploadedNewChunks = 2, res_reusedChunks = 0\<rparr>"
  have h: "fst ?run = Status200 ?r"
    by (simp add: run_defs example_file_def)
  then have a: "?run = (Status200 ?r, snd ?run)"
    by (simp add: prod_eq_iff)
  have h': "fst ?run' = Status200 ?r'"
    by (simp add: run_defs example_file'_def)
  then have b: "?run' = (Status200 ?r', snd ?run')"
    by (simp add: prod_eq_iff)
  have c: "concat (fragments example_file) = concat (fragments example_file')"
    by (simp add: example_file_def example_file'_def)
  have d: "fragments example_file \<noteq> fragments example_file'"
    by (simp add: example_file_def example_file'_def)
  from fragmentation_independent [OF a b c] h h' c d show ?thesis
    by simp
qed

subsection \<open>New and reused chunks\<close>



text \<open>
  Claim C9. When the index answers the lookup of a chunk's digest with a record,
  \<open>ensureChunkStored\<close> returns at once: the only command sent is the lookup, the bucket is
  untouched, the index is what the concurrent uploads made of it, and the chunk is counted
  as reused with its digest pushed.
\<close>

theorem present_chunk_no_writes:
  assumes "send_GetItem (sha256Hex sha256 chunk) w = (Inr (Some it), w1)"
  shows "ensureChunkStored (sha256Hex sha256 chunk) chunk w = (Inr True, w1) \<and>
     process_chunk sha256 chunk s w =
       (Inr (s\<lparr>reusedChunks := reusedChunks s + 1,
               chunkHashes := chunkHashes s @ [sha256Hex sha256 chunk],
               emitted := emitted s @ [chunk]\<rparr>), w1) \<and>
     log w1 = log w @ [(GetItemCommand CHUNKS_TABLE (sha256Hex sha256 chunk), None)] \<and>
     bucket w1 = bucket w \<and>
     chunks_table w1 = chunks_table (snd (env_turn w))"
proof -
  let ?h = "sha256Hex sha256 chunk"
  note e = ensureChunkStored_present [OF assms, of chunk]
  then have "process_chunk sha256 chunk s w =
       (Inr (s\<lparr>reusedChunks := reusedChunks s + 1,
               chunkHashes := chunkHashes s @ [?h], emitted := emitted s @ [chunk]\<rparr>), w1)"
    by (simp add: process_chunk_def)
  moreover from send_GetItem_evolves [OF assms]
  have "log w1 = log w @ [(GetItemCommand CHUNKS_TABLE ?h, None)]"
    by (simp add: evolves_def)
  moreover note send_GetItem_bucket [OF assms]
  moreover from assms have "chunks_table w1 = chunks_table (snd (env_turn w))"
    by (cases "env_turn w")
      (auto simp: send_GetItem_def logged_def split: option.splits)
  ultimately show ?thesis using e by simp
qed
theorem present_chunk_no_writes_witness:
  "fst (send_GetItem (sha256Hex checksum [1, 2]) stocked_world) =
     Inr (Some \<lparr>chunk_hash = ''aaa'', chunk_size = 2, chunk_s3Key = ''chunks/aaa'',
                chunk_createdAt = ''s''\<rparr>) \<and>
   process_chunk checksum [1, 2] init_state stocked_world =
     (Inr (init_state\<lparr>reusedChunks := 1, chunkHashes := [''aaa''], emitted := [[1, 2]]\<rparr>),
      snd (send_GetItem (sha256Hex checksum [1, 2]) stocked_world)) \<and>
   log (snd (send_GetItem (sha256Hex checksum [1, 2]) stocked_world)) =
     [(GetItemCommand CHUNKS_TABLE ''aaa'', None)] \<and>
   bucket (snd (send_GetItem (sha256Hex checksum [1, 2]) stocked_world)) = Map.empty"
proof -
  let ?get = "send_GetItem (sha256Hex checksum [1, 2]) stocked_world"
  let ?it = "\<lparr>chunk_hash = ''aaa'', chunk_size = 2, chunk_s3Key = ''chunks/aaa'',
                chunk_createdAt = ''s''\<rparr>"
  have h: "fst ?get = Inr (Some ?it)"
    by (simp add: run_defs stocked_world_def)
  then have "?get = (Inr (Some ?it), snd ?get)"
    by (simp add: prod_eq_iff)
  from present_chunk_no_writes [OF this, of init_state] h show ?thesis
    by (simp add: run_defs stocked_world_def)
qed

subsection \<open>The empty stream\<close>

text \<open>
  Claim C8. A stream without bytes that ends normally, when the put of the manifest does
  not fail, is answered with status 200, \<open>size = 0\<close> and \<open>chunks = 0\<close>, and the manifest
  stored has an empty chunk list, size \<open>0\<close> and the digest of the empty byte sequence.
\<close>

lemma read_stream_empty:
  assumes "concat frags = []" and "buffered s = []"
  shows "read_stream sha256 frags End s w = (Inr s, w)"
  using assms
proof (induction frags)
  case Nil
  then show ?case by (simp add: on_end_def)
next
  case (Cons d frags)
  then have "d = []" by simp
  with Cons.prems(2) have "on_data sha256 d s w = (Inr s, w)"
    by (simp add: on_data_def update_def chunk_loop_done CHUNK_SIZE_pos)
  with Cons show ?case by simp
qed

theorem empty_stream:
  assumes "concat (fragments f) = []" and "ending f = End" and "fst (env_turn w) = None"
  shows "\<exists>w'. upload_handler sha256 (Some f) w =
       (Status200
          \<lparr>res_message = ok_message, res_fileId = uuid_source w (uuid_drawn w),
           res_fileName = originalname f,
           res_size = 0, res_chunks = 0, res_uploadedNewChunks = 0, res_reusedChunks = 0\<rparr>,
        w') \<and>
     files_table w' (uuid_source w (uuid_drawn w)) =
       Some \<lparr>item_fileId = uuid_source w (uuid_drawn w), item_fileName = originalname f,
             item_size = 0, item_uploadDate = clock w,
             item_contentHash = sha256Hex sha256 [], item_chunkHashes = []\<rparr>"
proof -
  let ?w0 = "w\<lparr>uuid_drawn := Suc (uuid_drawn w)\<rparr>"
  let ?fid = "uuid_source w (uuid_drawn w)"
  let ?m = "\<lparr>item_fileId = ?fid, item_fileName = originalname f,
             item_size = 0, item_uploadDate = clock w,
             item_contentHash = sha256Hex sha256 [], item_chunkHashes = []\<rparr>"
  have rs: "read_stream sha256 (fragments f) (ending f) init_state ?w0 = (Inr init_state, ?w0)"
    using assms(1,2) by (simp add: read_stream_empty init_state_def)
  obtain w1 where t: "env_turn ?w0 = (None, w1)"
    using assms(3) by (cases "env_turn w") (auto simp: env_turn_def split: list.splits)
  then have f: "files_table w1 = files_table w"
    by (auto simp: env_turn_def split: list.splits)
  let ?w' = "logged (PutFileItemCommand FILES_TABLE ?m) None
               (w1\<lparr>files_table := (files_table w1)(?fid \<mapsto> ?m)\<rparr>)"
  have "putFileManifest ?fid (originalname f) 0 [] (sha256Hex sha256 []) ?w0 = (Inr (), ?w')"
    using t by (simp add: putFileManifest_def send_PutFileItem_def)
  with rs have "upload_handler sha256 (Some f) w =
       (Status200
          \<lparr>res_message = ok_message, res_fileId = ?fid,
           res_fileName = originalname f,
           res_size = 0, res_chunks = 0, res_uploadedNewChunks = 0, res_reusedChunks = 0\<rparr>,
        ?w')"
    by (simp add: upload_handler_def randomUUID_def init_state_def sha256Hex_def digest_hex_def
        update_def createHash_def Let_def)
  moreover have "files_table ?w' ?fid = Some ?m"
    by (simp add: logged_def)
  ultimately show ?thesis by blast
qed

theorem empty_stream_witness:
  "concat (fragments empty_file) = [] \<and> ending empty_file = End \<and>
   fst (env_turn quiet_world) = None \<and>
   (\<exists>w'. upload_handler checksum (Some empty_file) quiet_world =
       (Status200
          \<lparr>res_message = ok_message, res_fileId = ''id-'', res_fileName = ''empty.txt'',
           res_size = 0, res_chunks = 0, res_uploadedNewChunks = 0, res_reusedChunks = 0\<rparr>,
        w') \<and>
     files_table w' ''id-'' =
       Some \<lparr>item_fileId = ''id-'', item_fileName = ''empty.txt'',
             item_size = 0, item_uploadDate = ''t'',
             item_contentHash = '''', item_chunkHashes = []\<rparr>)"
proof -
  have a: "concat (fragments empty_file) = []" and b: "ending empty_file = End"
    by (simp_all add: empty_file_def)
  have c: "fst (env_turn quiet_world) = None"
    by (simp add: env_turn_def quiet_world_def)
  from empty_stream [OF a b c, of checksum] a b c show ?thesis
    by (simp add: run_defs empty_file_def)
qed

subsection \<open>Failures\<close>



text \<open>
  Claim C3. The claim asks that a failure of the index write other than the lost race abort
  the upload. The source drops every exception of the conditional put (the \<^verbatim>\<open>catch (_)\<close> of
  lines 55-57 has no filter, although its comment names \<^verbatim>\<open>ConditionalCheckFailedException\<close>
  only). Below, the put fails with a throughput error: the upload is answered with status
  200, the chunk is counted as new, the manifest lists its digest, and the index has no
  record of it.
\<close>

theorem index_write_failure_swallowed:
  "fst (upload_handler checksum (Some small_file) no_index_world) =
     Status200 \<lparr>res_message = ok_message, res_fileId = ''id-'',
       res_fileName = ''d.bin'', res_size = 2,
       res_chunks = 1, res_uploadedNewChunks = 1, res_reusedChunks = 0\<rparr> \<and>
   log (snd (upload_handler checksum (Some small_file) no_index_world)) =
     [(GetItemCommand CHUNKS_TABLE ''aaa'', None),
      (PutObjectCommand BUCKET_NAME ''chunks/aaa'' [1, 2], None),
      (PutChunkItemCommand CHUNKS_TABLE
         \<lparr>chunk_hash = ''aaa'', chunk_size = 2, chunk_s3Key = ''chunks/aaa'',
          chunk_createdAt = ''t''\<rparr>,
       Some (ServiceError ''ProvisionedThroughputExceededException'')),
      (PutFileItemCommand FILES_TABLE
         \<lparr>item_fileId = ''id-'', item_fileName = ''d.bin'', item_size = 2,
          item_uploadDate = ''t'', item_contentHash = ''aaa'', item_chunkHashes = [''aaa'']\<rparr>,
       None)] \<and>
   chunks_table (snd (upload_handler checksum (Some small_file) no_index_world)) ''aaa'' = None \<and>
   files_table (snd (upload_handler checksum (Some small_file) no_index_world)) ''id-'' =
     Some \<lparr>item_fileId = ''id-'', item_fileName = ''d.bin'', item_size = 2,
          item_uploadDate = ''t'', item_contentHash = ''aaa'', item_chunkHashes = [''aaa'']\<rparr>"
  by (simp add: run_defs small_file_def no_index_world_def)

subsection \<open>Uploading the same content twice\<close>

text \<open>
  Claim C7, as stated, promises two different \<open>fileId\<close>s. The handler takes the identifier
  from \<^verbatim>\<open>crypto.randomUUID()\<close> (line 89) and never compares it with the identifiers in the
  table. Below, the random source returns the same identifier twice: both uploads of the
  same bytes are answered with status 200 under that one identifier, and the manifest of
  the second has replaced the manifest of the first.
\<close>

theorem repeated_uuid_one_manifest:
  "fst (upload_handler checksum (Some example_file) stuck_world) =
     Status200 \<lparr>res_message = ok_message, res_fileId = ''id-'',
       res_fileName = ''a.bin'', res_size = CHUNK_SIZE + 2,
       res_chunks = 2, res_uploadedNewChunks = 2, res_reusedChunks = 0\<rparr> \<and>
   files_table (snd (upload_handler checksum (Some example_file) stuck_world)) ''id-'' =
     Some \<lparr>item_fileId = ''id-'', item_fileName = ''a.bin'', item_size = CHUNK_SIZE + 2,
           item_uploadDate = ''t'', item_contentHash = ''aaa'',
           item_chunkHashes = ['''', ''aaa'']\<rparr> \<and>
   chunks_table (snd (upload_handler checksum (Some example_file) stuck_world)) '''' \<noteq> None \<and>
   chunks_table (snd (upload_handler checksum (Some example_file) stuck_world)) ''aaa'' \<noteq> None \<and>
   fst (upload_handler checksum (Some example_file')
          (snd (upload_handler checksum (Some example_file) stuck_world))) =
     Status200 \<lparr>res_message = ok_message, res_fileId = ''id-'',
       res_fileName = ''b.bin'', res_size = CHUNK_SIZE + 2,
       res_chunks = 2, res_uploadedNewChunks = 0, res_reusedChunks = 2\<rparr> \<and>
   files_table (snd (upload_handler checksum (Some example_file')
          (snd (upload_handler checksum (Some example_file) stuck_world)))) ''id-'' =
     Some \<lparr>item_fileId = ''id-'', item_fileName = ''b.bin'', item_size = CHUNK_SIZE + 2,
           item_uploadDate = ''t'', item_contentHash = ''aaa'',
           item_chunkHashes = ['''', ''aaa'']\<rparr> \<and>
   dom (files_table (snd (upload_handler checksum (Some example_file')
          (snd (upload_handler checksum (Some example_file) stuck_world))))) = {''id-''}"
  by (simp add: run_defs example_file_def example_file'_def stuck_world_def)

text \<open>
  Claim C7, amended. Take two successful uploads, one after the other, of streams with the
  same bytes, the index holding every digest of the first manifest when the second
  starts. The two \<open>fileId\<close>s are the two values the random source returns, in order; the
  second manifest is stored under the second, with the same chunk digests and the same
  content digest as the first; when the two identifiers differ, the first manifest is
  still stored under the first; and the second response reports every chunk as reused and
  none as new.
\<close>

theorem second_upload_reuses_all:
  assumes "upload_handler sha256 (Some f1) w = (Status200 r1, w1)"
    and "upload_handler sha256 (Some f2) w1 = (Status200 r2, w2)"
    and "concat (fragments f2) = concat (fragments f1)"
    and "\<exists>m. files_table w1 (res_fileId r1) = Some m \<and>
           set (item_chunkHashes m) \<subseteq> dom (chunks_table w1)"
  shows "res_fileId r1 = uuid_source w (uuid_drawn w) \<and>
     res_fileId r2 = uuid_source w (Suc (uuid_drawn w)) \<and>
     (\<exists>m1 m2. files_table w1 (res_fileId r1) = Some m1 \<and>
        files_table w2 (res_fileId r2) = Some m2 \<and>
        item_fileId m1 = res_fileId r1 \<and> item_fileId m2 = res_fileId r2 \<and>
        item_chunkHashes m1 = item_chunkHashes m2 \<and>
        item_contentHash m1 = item_contentHash m2 \<and>
        (res_fileId r1 \<noteq> res_fileId r2 \<longrightarrow> files_table w2 (res_fileId r1) = Some m1)) \<and>
     res_reusedChunks r2 = res_chunks r2 \<and> res_uploadedNewChunks r2 = 0"
proof -
  from assms(1) obtain s1 wa where
    rs1: "read_stream sha256 (fragments f1) (ending f1) init_state (snd (randomUUID w)) = (Inr s1, wa)"
    and m1: "files_table w1 (res_fileId r1) =
       Some \<lparr>item_fileId = res_fileId r1, item_fileName = originalname f1,
             item_size = totalBytes s1, item_uploadDate = clock wa,
             item_contentHash = sha256 (contentHasher s1), item_chunkHashes = chunkHashes s1\<rparr>"
    and id1: "res_fileId r1 = uuid_source w (uuid_drawn w)"
    by (rule upload_handler_manifest)
  from assms(2) obtain s2 wb where
    rs2: "read_stream sha256 (fragments f2) (ending f2) init_state (snd (randomUUID w1)) = (Inr s2, wb)"
    and m2: "files_table w2 (res_fileId r2) =
       Some \<lparr>item_fileId = res_fileId r2, item_fileName = originalname f2,
             item_size = totalBytes s2, item_uploadDate = clock wb,
             item_contentHash = sha256 (contentHasher s2), item_chunkHashes = chunkHashes s2\<rparr>"
    and c2: "res_chunks r2 = length (chunkHashes s2)"
      "res_uploadedNewChunks r2 = uploadedNewChunks s2" "res_reusedChunks r2 = reusedChunks s2"
    and id2: "res_fileId r2 = uuid_source w1 (uuid_drawn w1)"
    by (rule upload_handler_manifest)
  note f1 = read_stream_init [OF rs1] and f2 = read_stream_init [OF rs2]
  from f1(2) f2(2) have h: "chunkHashes s1 = map (sha256Hex sha256) (emitted s1)"
    "chunkHashes s2 = map (sha256Hex sha256) (emitted s2)"
    and cnt: "length (chunkHashes s2) = uploadedNewChunks s2 + reusedChunks s2"
    unfolding finished_def by blast+
  from finished_emitted [OF f1(2)] finished_emitted [OF f2(2)] f1(3) f2(3) assms(3)
  have "emitted s2 = emitted s1" by simp
  with h have same: "chunkHashes s2 = chunkHashes s1" by simp
  from f1(3) f2(3) assms(3) have hash: "contentHasher s2 = contentHasher s1" by simp
  note wl = upload_handler_world [OF assms(1)]
  from id2 wl(1,2) have id2': "res_fileId r2 = uuid_source w (Suc (uuid_drawn w))" by simp
  from upload_handler_world(3) [OF assms(2)] m1
  have keep: "res_fileId r1 \<noteq> res_fileId r2 \<longrightarrow> files_table w2 (res_fileId r1) =
       Some \<lparr>item_fileId = res_fileId r1, item_fileName = originalname f1,
             item_size = totalBytes s1, item_uploadDate = clock wa,
             item_contentHash = sha256 (contentHasher s1), item_chunkHashes = chunkHashes s1\<rparr>"
    by simp
  from assms(4) m1 same have "set (chunkHashes s2) \<subseteq> dom (chunks_table w1)" by auto
  then have "set (chunkHashes s2) \<subseteq> dom (chunks_table (snd (randomUUID w1)))"
    by (simp add: randomUUID_def)
  from read_stream_reused [OF rs2 this] have "uploadedNewChunks s2 = 0"
    by (simp add: init_state_def)
  with cnt c2 have "res_reusedChunks r2 = res_chunks r2" "res_uploadedNewChunks r2 = 0"
    by simp_all
  with keep m1 m2 id1 id2' same hash show ?thesis by simp
qed

theorem second_upload_reuses_all_witness:
  "fst (upload_handler checksum (Some example_file) quiet_world) =
     Status200 \<lparr>res_message = ok_message, res_fileId = ''id-'',
       res_fileName = ''a.bin'', res_size = CHUNK_SIZE + 2,
       res_chunks = 2, res_uploadedNewChunks = 2, res_reusedChunks = 0\<rparr> \<and>
   fst (upload_handler checksum (Some example_file')
          (snd (upload_handler checksum (Some example_file) quiet_world))) =
     Status200 \<lparr>res_message = ok_message, res_fileId = ''id-x'',
       res_fileName = ''b.bin'', res_size = CHUNK_SIZE + 2,
       res_chunks = 2, res_uploadedNewChunks = 0, res_reusedChunks = 2\<rparr> \<and>
   uuid_source quiet_world (uuid_drawn quiet_world) = ''id-'' \<and>
   uuid_source quiet_world (Suc (uuid_drawn quiet_world)) = ''id-x'' \<and>
   (\<exists>m1 m2.
      files_table (snd (upload_handler checksum (Some example_file) quiet_world)) ''id-'' = Some m1 \<and>
      files_table (snd (upload_handler checksum (Some example_file')
          (snd (upload_handler checksum (Some example_file) quiet_world)))) ''id-x'' = Some m2 \<and>
      item_chunkHashes m1 = item_chunkHashes m2 \<and>
      item_contentHash m1 = item_contentHash m2 \<and>
      files_table (snd (upload_handler checksum (Some example_file')
          (snd (upload_handler checksum (Some example_file) quiet_world)))) ''id-'' = Some m1)"
proof -
  let ?run1 = "upload_handler checksum (Some example_file) quiet_world"
  let ?run2 = "upload_handler checksum (Some example_file') (snd ?run1)"
  let ?r1 = "\<lparr>res_message = ok_message, res_fileId = ''id-'',
       res_fileName = ''a.bin'', res_size = CHUNK_SIZE + 2,
       res_chunks = 2, res_uploadedNewChunks = 2, res_reusedChunks = 0\<rparr>"
  let ?r2 = "\<lparr>res_message = ok_message, res_fileId = ''id-x'',
       res_fileName = ''b.bin'', res_size = CHUNK_SIZE + 2,
       res_chunks = 2, res_uploadedNewChunks = 0, res_reusedChunks = 2\<rparr>"
  have h1: "fst ?run1 = Status200 ?r1"
    by (simp add: run_defs example_file_def)
  then have a: "?run1 = (Status200 ?r1, snd ?run1)"
    by (simp add: prod_eq_iff)
  have h2: "fst ?run2 = Status200 ?r2"
    by (simp add: run_defs example_file_def example_file'_def)
  then have b: "?run2 = (Status200 ?r2, snd ?run2)"
    by (simp add: prod_eq_iff)
  have c: "concat (fragments example_file') = concat (fragments example_file)"
    by (simp add: example_file_def example_file'_def)
  have d: "\<exists>m. files_table (snd ?run1) (res_fileId ?r1) = Some m \<and>
           set (item_chunkHashes m) \<subseteq> dom (chunks_table (snd ?run1))"
    by (simp add: run_defs example_file_def)
  from second_upload_reuses_all [OF a b c d] h1 h2 show ?thesis
    by auto
qed


end
